theory Spec2Isabelle
  imports Main "HOL-Library.Word" "HOL-Library.Signed_Division"
begin

section \<open>The imaging interfaces the editor is written against\<close>

text \<open>
  \<^verbatim>\<open>monkey_island_font_editor.py\<close> reads and writes bitmaps through PIL and edits them in a
  \<^verbatim>\<open>QImage\<close> of format \<^verbatim>\<open>Format_Indexed8\<close>. Both are modelled by the part of their
  documented behaviour the editor relies on. Widget repaints and resizes
  (\<^verbatim>\<open>update\<close>, \<^verbatim>\<open>update_size\<close>) change nothing of the state below and are left out.
\<close>

type_synonym byte = "8 word"

datatype error = OSError | ZeroDivisionError

text \<open>
  A PIL image as the editor sees it: \<^verbatim>\<open>mode\<close>, the result of \<^verbatim>\<open>getpalette()\<close>
  (\<^verbatim>\<open>None\<close> when the image has no palette), \<^verbatim>\<open>size\<close> as (width, height) and the
  result of \<^verbatim>\<open>tobytes()\<close>.
\<close>

record pil_image =
  mode :: string
  getpalette :: "nat list option"
  size_wh :: "nat \<times> nat"
  tobytes :: "byte list"

text \<open>Python's truth value of \<^verbatim>\<open>self.original_palette\<close>: \<^verbatim>\<open>None\<close> and the empty list are false.\<close>

definition truthy :: "nat list option \<Rightarrow> bool" where
  "truthy p = (case p of None \<Rightarrow> False | Some l \<Rightarrow> l \<noteq> [])"

datatype qcolor = QColor nat nat nat

text \<open>
  An indexed \<^verbatim>\<open>QImage\<close>: its dimensions, its colour table and one byte per pixel, row-major.
  The constructor leaves the pixel data uninitialised (whatever the memory \<open>mem\<close> held) and the
  colour table empty.
\<close>

record qimage =
  width :: nat
  height :: nat
  colortable :: "qcolor list"
  pixel_bytes :: "byte list"

definition QImage_new :: "(nat \<Rightarrow> byte) \<Rightarrow> nat \<Rightarrow> nat \<Rightarrow> qimage" where
  "QImage_new mem w h =
     \<lparr>width = w, height = h, colortable = [], pixel_bytes = map mem [0..<w * h]\<rparr>"

text \<open>\<^verbatim>\<open>setColor(i, c)\<close> grows the colour table to \<open>i + 1\<close> entries when \<open>i\<close> is beyond it.\<close>

definition setColor :: "qimage \<Rightarrow> nat \<Rightarrow> qcolor \<Rightarrow> qimage" where
  "setColor img i c =
     (let ct = colortable img in
      img\<lparr>colortable :=
        (if i < length ct then ct[i := c]
         else ct @ replicate (i - length ct) (QColor 0 0 0) @ [c])\<rparr>)"

text \<open>
  \<^verbatim>\<open>setPixel(x, y, index)\<close> on an indexed image: the index must be an entry of the colour
  table. Qt warns and writes nothing for a coordinate outside the image and for an index
  outside the colour table; otherwise it stores the index in the pixel's byte.
\<close>

definition setPixel :: "qimage \<Rightarrow> nat \<Rightarrow> nat \<Rightarrow> nat \<Rightarrow> qimage" where
  "setPixel img x y index_or_rgb =
     (if \<not> (x < width img \<and> y < height img) then img
      else if index_or_rgb \<ge> length (colortable img) then img
      else img\<lparr>pixel_bytes := (pixel_bytes img)[y * width img + x := of_nat index_or_rgb]\<rparr>)"

text \<open>\<^verbatim>\<open>pixelIndex(x, y)\<close>; Qt warns and returns -12345 outside the image.\<close>

definition pixelIndex :: "qimage \<Rightarrow> nat \<Rightarrow> nat \<Rightarrow> int" where
  "pixelIndex img x y =
     (if x < width img \<and> y < height img
      then uint (pixel_bytes img ! (y * width img + x))
      else - 12345)"

text \<open>\<^verbatim>\<open>putdata\<close> stores each value of the sequence as one byte, clipped to 0..255.\<close>

definition clip8 :: "int \<Rightarrow> byte" where
  "clip8 v = of_nat (nat (max 0 (min 255 v)))"

section \<open>PixelEditorCanvas\<close>

record canvas =
  image_q :: "qimage option"
  original_palette :: "nat list option"
  zoom_level :: int
  grid_enabled :: bool
  current_color_index :: nat
  drawing :: bool
  char_height :: int
  show_char_indices :: bool
  hover_y :: int

text \<open>\<^verbatim>\<open>__init__\<close>\<close>

definition canvas_init :: canvas where
  "canvas_init =
     \<lparr>image_q = None, original_palette = None, zoom_level = 20, grid_enabled = True,
      current_color_index = 1, drawing = False, char_height = 8,
      show_char_indices = True, hover_y = - 1\<rparr>"

subsection \<open>load_image\<close>

text \<open>Lines 60 to 73: the character height detected from the bitmap height.\<close>

definition auto_char_height :: "int \<Rightarrow> int" where
  "auto_char_height h =
     (if h = 2048 then 8
      else if h = 2259 then 9
      else if h = 3390 then 15
      else if h = 3584 then 14
      else (let ch = h div 256 in if ch < 1 then 8 else ch))"

text \<open>Lines 79 to 84: the 256 colour-table entries set from the palette.\<close>

definition set_palette :: "nat list \<Rightarrow> qimage \<Rightarrow> qimage" where
  "set_palette original img =
     (let palette = take 768 original in
      fold (\<lambda>i im.
              let r = (if i * 3 < length palette then palette ! (i * 3) else 0);
                  g = (if i * 3 + 1 < length palette then palette ! (i * 3 + 1) else 0);
                  b = (if i * 3 + 2 < length palette then palette ! (i * 3 + 2) else 0)
              in setColor im i (QColor r g b))
           [0..<256] img)"

text \<open>
  Lines 87 to 92: the pixel data copied cell by cell. \<open>copy_cell\<close> is the body of the
  inner loop, \<open>copy_row\<close> the inner loop, \<open>copy_pixels\<close> the outer one.
\<close>

definition copy_cell :: "byte list \<Rightarrow> nat \<Rightarrow> nat \<Rightarrow> nat \<Rightarrow> qimage \<Rightarrow> qimage" where
  "copy_cell pixel_data w y x img =
     (let idx = y * w + x in
      if idx < length pixel_data
      then setPixel img x y (unat (pixel_data ! idx))
      else img)"

definition copy_row :: "byte list \<Rightarrow> nat \<Rightarrow> nat \<Rightarrow> qimage \<Rightarrow> qimage" where
  "copy_row pixel_data w y img = fold (copy_cell pixel_data w y) [0..<w] img"

definition copy_pixels :: "byte list \<Rightarrow> nat \<Rightarrow> nat \<Rightarrow> qimage \<Rightarrow> qimage" where
  "copy_pixels pixel_data w h img = fold (copy_row pixel_data w) [0..<h] img"

text \<open>
  The body of \<^verbatim>\<open>load_image\<close> once \<^verbatim>\<open>Image.open\<close> has returned \<open>pil\<close>. \<open>convert\<close> is
  PIL's \<^verbatim>\<open>convert('P')\<close> and \<open>mem\<close> the memory the new \<^verbatim>\<open>QImage\<close> is allocated in.
  The palette is stored only for a source of mode \<^verbatim>\<open>P\<close>; nothing else assigns
  \<^verbatim>\<open>original_palette\<close>.
\<close>

definition load_pil ::
  "(pil_image \<Rightarrow> pil_image) \<Rightarrow> (nat \<Rightarrow> byte) \<Rightarrow> canvas \<Rightarrow> pil_image \<Rightarrow> canvas" where
  "load_pil convert mem c pil =
     (let pal = (if mode pil = ''P'' then getpalette pil else original_palette c);
          pil_image = (if mode pil \<noteq> ''P'' then convert pil else pil);
          w = fst (size_wh pil_image);
          h = snd (size_wh pil_image);
          ch = auto_char_height (int h);
          img0 = QImage_new mem w h;
          img1 = (case pal of
                    None \<Rightarrow> img0
                  | Some l \<Rightarrow> if l \<noteq> [] then set_palette l img0 else img0);
          img2 = copy_pixels (tobytes pil_image) w h img1
      in c\<lparr>original_palette := pal, char_height := ch, image_q := Some img2\<rparr>)"

text \<open>
  \<^verbatim>\<open>load_image(image_path)\<close>: \<open>opened\<close> is what \<^verbatim>\<open>Image.open(image_path)\<close> does, an
  exception or an image. The exception leaves the canvas as it was.
\<close>

definition load_image ::
  "(pil_image \<Rightarrow> pil_image) \<Rightarrow> (nat \<Rightarrow> byte) \<Rightarrow> canvas \<Rightarrow> error + pil_image \<Rightarrow> error + canvas" where
  "load_image convert mem c opened =
     (case opened of
        Inl e \<Rightarrow> Inl e
      | Inr pil \<Rightarrow> Inr (load_pil convert mem c pil))"

text \<open>
  The glyph count \<^verbatim>\<open>image.height() // char_height\<close> as \<^verbatim>\<open>load_character\<close> computes
  it when the canvas has an image (line 448); \<^verbatim>\<open>paintEvent\<close> computes the same quotient
  (line 143) when \<^verbatim>\<open>char_height\<close> is positive.
\<close>

definition num_chars :: "canvas \<Rightarrow> (error + int) option" where
  "num_chars c =
     (case image_q c of
        None \<Rightarrow> None
      | Some img \<Rightarrow>
          Some (if char_height c = 0 then Inl ZeroDivisionError
                else Inr (int (height img) div char_height c)))"

subsection \<open>Painting\<close>

type_synonym pos = "int \<times> int"

text \<open>A \<^verbatim>\<open>pixelChanged\<close> emission: x, y, colour index.\<close>

type_synonym signal = "int \<times> int \<times> nat"

text \<open>Lines 204 and 205: the cell under a pointer position.\<close>

definition cell_of :: "int \<Rightarrow> pos \<Rightarrow> int \<times> int" where
  "cell_of zoom p = (fst p div zoom, snd p div zoom)"

definition draw_pixel :: "canvas \<Rightarrow> pos \<Rightarrow> error + canvas \<times> signal list" where
  "draw_pixel c p =
     (case image_q c of
        None \<Rightarrow> Inr (c, [])
      | Some img \<Rightarrow>
          if zoom_level c = 0 then Inl ZeroDivisionError
          else
            let x = fst (cell_of (zoom_level c) p);
                y = snd (cell_of (zoom_level c) p)
            in if 0 \<le> x \<and> x < int (width img) \<and> 0 \<le> y \<and> y < int (height img)
               then Inr (c\<lparr>image_q := Some (setPixel img (nat x) (nat y) (current_color_index c))\<rparr>,
                         [(x, y, current_color_index c)])
               else Inr (c, []))"

datatype button = LeftButton | RightButton | MiddleButton

definition mousePressEvent :: "canvas \<Rightarrow> button \<Rightarrow> pos \<Rightarrow> error + canvas \<times> signal list" where
  "mousePressEvent c b p =
     (if b = LeftButton \<and> image_q c \<noteq> None
      then draw_pixel (c\<lparr>drawing := True\<rparr>) p
      else Inr (c, []))"

definition mouseMoveEvent :: "canvas \<Rightarrow> pos \<Rightarrow> error + canvas \<times> signal list" where
  "mouseMoveEvent c p =
     (if image_q c \<noteq> None
      then if zoom_level c = 0 then Inl ZeroDivisionError
           else
             let c' = c\<lparr>hover_y := snd p div zoom_level c\<rparr>
             in if drawing c' then draw_pixel c' p else Inr (c', [])
      else Inr (c, []))"

definition mouseReleaseEvent :: "canvas \<Rightarrow> button \<Rightarrow> canvas" where
  "mouseReleaseEvent c b = (if b = LeftButton then c\<lparr>drawing := False\<rparr> else c)"

definition set_zoom :: "canvas \<Rightarrow> int \<Rightarrow> canvas" where
  "set_zoom c z = c\<lparr>zoom_level := z\<rparr>"

definition set_color :: "canvas \<Rightarrow> nat \<Rightarrow> canvas" where
  "set_color c color_index = c\<lparr>current_color_index := color_index\<rparr>"

definition set_char_height :: "canvas \<Rightarrow> int \<Rightarrow> canvas" where
  "set_char_height c h = c\<lparr>char_height := h\<rparr>"

subsection \<open>save_image\<close>

text \<open>
  Lines 241 to 244: the indices read back row by row, each appended to \<^verbatim>\<open>pixels\<close>.
\<close>

definition collect_row :: "qimage \<Rightarrow> nat \<Rightarrow> int list \<Rightarrow> int list" where
  "collect_row img y pixels =
     fold (\<lambda>x pixels'. pixels' @ [pixelIndex img x y]) [0..<width img] pixels"

definition collect_pixels :: "qimage \<Rightarrow> int list" where
  "collect_pixels img = fold (collect_row img) [0..<height img] []"

text \<open>
  \<^verbatim>\<open>save_image(output_path)\<close>. The result is the exception of \<^verbatim>\<open>pil_image.save\<close> when the
  file cannot be written (\<open>writable\<close> false), or the returned flag with the image handed to
  the BMP encoder, if any.
\<close>

definition save_image :: "bool \<Rightarrow> canvas \<Rightarrow> error + bool \<times> pil_image option" where
  "save_image writable c =
     (case image_q c of
        None \<Rightarrow> Inr (False, None)
      | Some img \<Rightarrow>
          if \<not> truthy (original_palette c) then Inr (False, None)
          else
            let pil_image =
                  \<lparr>mode = ''P'', getpalette = original_palette c,
                   size_wh = (width img, height img),
                   tobytes = map clip8 (collect_pixels img)\<rparr>
            in if writable then Inr (True, Some pil_image) else Inl OSError)"

section \<open>MonkeyIslandFontEditor\<close>

record editor =
  current_file :: "string option"
  current_index :: "int option"
  canvas :: canvas

datatype dialog =
    Warning_No_File
  | Information_Saved
  | Critical_Save_Error string

definition adjust_zoom :: "editor \<Rightarrow> int \<Rightarrow> editor" where
  "adjust_zoom e delta =
     (let new_zoom = max 5 (min 50 (zoom_level (canvas e) + delta))
      in e\<lparr>canvas := set_zoom (canvas e) new_zoom\<rparr>)"

text \<open>
  \<^verbatim>\<open>save_current\<close>: the dialog shown and the image written, if any. \<open>msg\<close> renders an
  exception of \<^verbatim>\<open>save_image\<close> as \<^verbatim>\<open>str(e)\<close>. The refresh of the thumbnails after a
  successful save is left out.
\<close>

definition save_current :: "(error \<Rightarrow> string) \<Rightarrow> bool \<Rightarrow> editor \<Rightarrow> dialog \<times> pil_image option" where
  "save_current msg writable e =
     (case current_file e of
        None \<Rightarrow> (Warning_No_File, None)
      | Some path \<Rightarrow>
          if path = [] then (Warning_No_File, None)
          else
            (case save_image writable (canvas e) of
               Inr (True, out) \<Rightarrow> (Information_Saved, out)
             | Inr (False, out) \<Rightarrow> (Critical_Save_Error ''Save failed'', out)
             | Inl err \<Rightarrow> (Critical_Save_Error (msg err), None)))"

section \<open>Sequences of canvas events\<close>

datatype event =
    Press button pos
  | Move pos
  | Release button
  | Set_Color nat
  | Set_Zoom int

fun step :: "canvas \<Rightarrow> event \<Rightarrow> error + canvas \<times> signal list" where
  "step c (Press b p) = mousePressEvent c b p"
| "step c (Move p) = mouseMoveEvent c p"
| "step c (Release b) = Inr (mouseReleaseEvent c b, [])"
| "step c (Set_Color i) = Inr (set_color c i, [])"
| "step c (Set_Zoom z) = Inr (set_zoom c z, [])"

text \<open>The events in order; an exception ends the run, the emitted signals accumulate.\<close>

fun run :: "canvas \<Rightarrow> event list \<Rightarrow> error + canvas \<times> signal list" where
  "run c [] = Inr (c, [])"
| "run c (ev # evs) =
     (case step c ev of
        Inl err \<Rightarrow> Inl err
      | Inr (c', emitted) \<Rightarrow>
          (case run c' evs of
             Inl err \<Rightarrow> Inl err
           | Inr (c'', emitted') \<Rightarrow> Inr (c'', emitted @ emitted')))"

section \<open>Vocabulary of the statements\<close>

text \<open>The test of line 207 on the cell under a pointer position.\<close>

definition inside :: "qimage \<Rightarrow> int \<Rightarrow> pos \<Rightarrow> bool" where
  "inside img zoom p =
     (0 \<le> fst (cell_of zoom p) \<and> fst (cell_of zoom p) < int (width img)
      \<and> 0 \<le> snd (cell_of zoom p) \<and> snd (cell_of zoom p) < int (height img))"

text \<open>The signal a paint at a position emits: the cell and the current colour index.\<close>

definition signal_at :: "canvas \<Rightarrow> pos \<Rightarrow> signal" where
  "signal_at c p =
     (fst (cell_of (zoom_level c) p), snd (cell_of (zoom_level c) p), current_color_index c)"

text \<open>Sample inputs: a 4 by 4 indexed bitmap with a two-colour palette, and a 1 by 1 RGB one.\<close>

definition demo_file :: pil_image where
  "demo_file =
     \<lparr>mode = ''P'', getpalette = Some [255, 0, 255, 128, 0, 128], size_wh = (4, 4),
      tobytes = [0, 1, 1, 0, 1, 0, 0, 1, 1, 0, 0, 1, 0, 1, 1, 0]\<rparr>"

definition rgb_file :: pil_image where
  "rgb_file = \<lparr>mode = ''RGB'', getpalette = None, size_wh = (1, 1), tobytes = [255, 0, 0]\<rparr>"

definition blank_memory :: "nat \<Rightarrow> byte" where
  "blank_memory a = 0"


text \<open>Python's \<^verbatim>\<open>str(e)\<close> of the exceptions of the model.\<close>

fun str_of_error :: "error \<Rightarrow> string" where
  "str_of_error OSError = ''OSError''"
| "str_of_error ZeroDivisionError = ''integer division or modulo by zero''"

text \<open>An editor with a file selected and nothing loaded in its canvas.\<close>

definition demo_editor :: editor where
  "demo_editor =
     \<lparr>current_file = Some ''char0001.bmp'', current_index = Some 1, canvas = canvas_init\<rparr>"

section \<open>Facts about the imaging interfaces\<close>

lemma fold_invariant:
  assumes "P s" and "\<And>x t. x \<in> set xs \<Longrightarrow> P t \<Longrightarrow> P (f x t)"
  shows "P (fold f xs s)"
  using assms by (induction xs arbitrary: s) auto

lemma byte_unat_less: "unat (d :: byte) < 256"
  using unsigned_less [of d, where ?'a = nat] by simp

lemma clip8_uint: "clip8 (uint (d :: byte)) = d"
proof -
  have "unat d < 256" by (rule byte_unat_less)
  then have "nat (max 0 (min 255 (int (unat d)))) = unat d" by linarith
  then have "clip8 (int (unat d)) = d" unfolding clip8_def by simp
  then show ?thesis by simp
qed


lemma setColor_frame:
  "width (setColor img i c) = width img"
  "height (setColor img i c) = height img"
  "pixel_bytes (setColor img i c) = pixel_bytes img"
  by (simp_all add: setColor_def Let_def)

lemma setColor_length:
  "length (colortable (setColor img i c)) = max (length (colortable img)) (Suc i)"
  by (simp add: setColor_def Let_def)

lemma fold_setColor_length:
  "length (colortable (fold (\<lambda>i im. setColor im i (g i)) [0..<k] img))
     = max (length (colortable img)) k"
  by (induction k) (simp_all add: setColor_length)

lemma setPixel_frame:
  "width (setPixel img x y v) = width img"
  "height (setPixel img x y v) = height img"
  "colortable (setPixel img x y v) = colortable img"
  "length (pixel_bytes (setPixel img x y v)) = length (pixel_bytes img)"
  by (simp_all add: setPixel_def)


lemma QImage_new_simps:
  "width (QImage_new mem w h) = w" "height (QImage_new mem w h) = h"
  "colortable (QImage_new mem w h) = []" "length (pixel_bytes (QImage_new mem w h)) = w * h"
  by (simp_all add: QImage_new_def)



section \<open>Loading\<close>

lemma set_palette_frame:
  "width (set_palette l img) = width img \<and> height (set_palette l img) = height img
   \<and> pixel_bytes (set_palette l img) = pixel_bytes img"
  unfolding set_palette_def Let_def
  by (rule fold_invariant) (simp_all add: setColor_frame)

lemma set_palette_length:
  "length (colortable (set_palette l img)) = max (length (colortable img)) 256"
  unfolding set_palette_def Let_def by (rule fold_setColor_length)

text \<open>
  The copy loops, with a colour table of 256 entries: row \<open>y\<close> up to column \<open>k\<close>, a whole
  row, the rows up to \<open>k\<close>, the whole image. Cells beyond the pixel data keep what they held.
\<close>

lemma copy_row_prefix:
  assumes "y < height img" and "width img = w"
    and "length (colortable img) = 256"
    and "length (pixel_bytes img) = w * height img"
  shows "k \<le> w \<Longrightarrow>
     width (fold (copy_cell pixel_data w y) [0..<k] img) = w
     \<and> height (fold (copy_cell pixel_data w y) [0..<k] img) = height img
     \<and> colortable (fold (copy_cell pixel_data w y) [0..<k] img) = colortable img
     \<and> length (pixel_bytes (fold (copy_cell pixel_data w y) [0..<k] img)) = w * height img
     \<and> (\<forall>i < w * height img. pixel_bytes (fold (copy_cell pixel_data w y) [0..<k] img) ! i =
          (if y * w \<le> i \<and> i < y * w + k \<and> i < length pixel_data
           then pixel_data ! i else pixel_bytes img ! i))"
proof (induction k)
  case 0
  show ?case using assms by auto
next
  case (Suc k)
  let ?r = "fold (copy_cell pixel_data w y) [0..<k] img"
  have IH: "width ?r = w \<and> height ?r = height img \<and> colortable ?r = colortable img
     \<and> length (pixel_bytes ?r) = w * height img
     \<and> (\<forall>i < w * height img. pixel_bytes ?r ! i =
          (if y * w \<le> i \<and> i < y * w + k \<and> i < length pixel_data
           then pixel_data ! i else pixel_bytes img ! i))"
    using Suc by simp
  have kw: "k < w" using Suc.prems by simp
  have "Suc y \<le> height img" using assms(1) by simp
  then have "Suc y * w \<le> height img * w" by (rule mult_le_mono1)
  then have inr: "y * w + k < w * height img"
    using kw by (simp add: mult.commute)
  have unfold: "fold (copy_cell pixel_data w y) [0..<Suc k] img = copy_cell pixel_data w y k ?r"
    by simp
  show ?case
  proof (cases "y * w + k < length pixel_data")
    case False
    then have "copy_cell pixel_data w y k ?r = ?r" by (simp add: copy_cell_def Let_def)
    then show ?thesis unfolding unfold using IH False by auto
  next
    case True
    have v: "unat (pixel_data ! (y * w + k)) < length (colortable ?r)"
      using IH assms(3) byte_unat_less by simp
    have step: "copy_cell pixel_data w y k ?r
        = ?r\<lparr>pixel_bytes := (pixel_bytes ?r)[y * w + k := pixel_data ! (y * w + k)]\<rparr>"
      using IH kw assms(1) v True by (simp add: copy_cell_def setPixel_def Let_def)
    have len: "y * w + k < length (pixel_bytes ?r)"
      using IH inr by simp
    show ?thesis
      unfolding unfold step using IH True len by (auto simp: nth_list_update)
  qed
qed

lemma copy_row_result:
  assumes "y < height img" and "width img = w"
    and "length (colortable img) = 256"
    and "length (pixel_bytes img) = w * height img"
  shows "width (copy_row pixel_data w y img) = w
     \<and> height (copy_row pixel_data w y img) = height img
     \<and> colortable (copy_row pixel_data w y img) = colortable img
     \<and> length (pixel_bytes (copy_row pixel_data w y img)) = w * height img
     \<and> (\<forall>i < w * height img. pixel_bytes (copy_row pixel_data w y img) ! i =
          (if y * w \<le> i \<and> i < y * w + w \<and> i < length pixel_data
           then pixel_data ! i else pixel_bytes img ! i))"
  unfolding copy_row_def using copy_row_prefix [OF assms, of w pixel_data] by simp

lemma copy_rows_prefix:
  assumes "width img = w"
    and "length (colortable img) = 256"
    and "length (pixel_bytes img) = w * height img"
  shows "k \<le> height img \<Longrightarrow>
     width (fold (copy_row pixel_data w) [0..<k] img) = w
     \<and> height (fold (copy_row pixel_data w) [0..<k] img) = height img
     \<and> colortable (fold (copy_row pixel_data w) [0..<k] img) = colortable img
     \<and> length (pixel_bytes (fold (copy_row pixel_data w) [0..<k] img)) = w * height img
     \<and> (\<forall>i < w * height img. pixel_bytes (fold (copy_row pixel_data w) [0..<k] img) ! i =
          (if i < k * w \<and> i < length pixel_data
           then pixel_data ! i else pixel_bytes img ! i))"
proof (induction k)
  case 0
  show ?case using assms by auto
next
  case (Suc k)
  let ?r = "fold (copy_row pixel_data w) [0..<k] img"
  have IH: "width ?r = w \<and> height ?r = height img \<and> colortable ?r = colortable img
     \<and> length (pixel_bytes ?r) = w * height img
     \<and> (\<forall>i < w * height img. pixel_bytes ?r ! i =
          (if i < k * w \<and> i < length pixel_data
           then pixel_data ! i else pixel_bytes img ! i))"
    using Suc by simp
  have unfold: "fold (copy_row pixel_data w) [0..<Suc k] img = copy_row pixel_data w k ?r"
    by simp
  have row: "width (copy_row pixel_data w k ?r) = w
     \<and> height (copy_row pixel_data w k ?r) = height ?r
     \<and> colortable (copy_row pixel_data w k ?r) = colortable ?r
     \<and> length (pixel_bytes (copy_row pixel_data w k ?r)) = w * height ?r
     \<and> (\<forall>i < w * height ?r. pixel_bytes (copy_row pixel_data w k ?r) ! i =
          (if k * w \<le> i \<and> i < k * w + w \<and> i < length pixel_data
           then pixel_data ! i else pixel_bytes ?r ! i))"
    using IH Suc.prems assms(2) by (intro copy_row_result) simp_all
  show ?case
    unfolding unfold using row IH by auto
qed

lemma copy_pixels_result:
  assumes "width img = w" and "height img = h"
    and "length (colortable img) = 256"
    and "length (pixel_bytes img) = w * h"
    and "length pixel_data = w * h"
  shows "width (copy_pixels pixel_data w h img) = w"
    and "height (copy_pixels pixel_data w h img) = h"
    and "colortable (copy_pixels pixel_data w h img) = colortable img"
    and "pixel_bytes (copy_pixels pixel_data w h img) = pixel_data"
proof -
  have all: "width (copy_pixels pixel_data w h img) = w
     \<and> height (copy_pixels pixel_data w h img) = height img
     \<and> colortable (copy_pixels pixel_data w h img) = colortable img
     \<and> length (pixel_bytes (copy_pixels pixel_data w h img)) = w * height img
     \<and> (\<forall>i < w * height img. pixel_bytes (copy_pixels pixel_data w h img) ! i =
          (if i < h * w \<and> i < length pixel_data
           then pixel_data ! i else pixel_bytes img ! i))"
    unfolding copy_pixels_def using assms
    by (intro copy_rows_prefix) simp_all
  show "width (copy_pixels pixel_data w h img) = w" using all by simp
  show "height (copy_pixels pixel_data w h img) = h" using all assms(2) by simp
  show "colortable (copy_pixels pixel_data w h img) = colortable img" using all by simp
  show "pixel_bytes (copy_pixels pixel_data w h img) = pixel_data"
  proof (rule nth_equalityI)
    show "length (pixel_bytes (copy_pixels pixel_data w h img)) = length pixel_data"
      using all assms by simp
  next
    fix i assume "i < length (pixel_bytes (copy_pixels pixel_data w h img))"
    then have "i < w * h" using all assms by simp
    then show "pixel_bytes (copy_pixels pixel_data w h img) ! i = pixel_data ! i"
      using all assms by (simp add: mult.commute)
  qed
qed

text \<open>Whatever the colour table and the data, the copy keeps the image's shape.\<close>

lemma copy_cell_frame:
  "width (copy_cell d w y x img) = width img \<and> height (copy_cell d w y x img) = height img
   \<and> colortable (copy_cell d w y x img) = colortable img
   \<and> length (pixel_bytes (copy_cell d w y x img)) = length (pixel_bytes img)"
  by (simp add: copy_cell_def Let_def setPixel_frame)

lemma copy_pixels_frame:
  "width (copy_pixels d w h img) = width img \<and> height (copy_pixels d w h img) = height img
   \<and> colortable (copy_pixels d w h img) = colortable img
   \<and> length (pixel_bytes (copy_pixels d w h img)) = length (pixel_bytes img)"
proof -
  let ?P = "\<lambda>im. width im = width img \<and> height im = height img
     \<and> colortable im = colortable img \<and> length (pixel_bytes im) = length (pixel_bytes img)"
  have row: "?P (copy_row d w y im)" if "?P im" for y im
    unfolding copy_row_def
    by (rule fold_invariant [where P = ?P]) (use that copy_cell_frame in auto)
  show ?thesis
    unfolding copy_pixels_def
    by (rule fold_invariant [where P = ?P]) (use row in auto)
qed

lemma load_pil_fields:
  "original_palette (load_pil convert mem c pil)
     = (if mode pil = ''P'' then getpalette pil else original_palette c)"
  "char_height (load_pil convert mem c pil)
     = auto_char_height (int (snd (size_wh (if mode pil \<noteq> ''P'' then convert pil else pil))))"
  "zoom_level (load_pil convert mem c pil) = zoom_level c"
  "current_color_index (load_pil convert mem c pil) = current_color_index c"
  "drawing (load_pil convert mem c pil) = drawing c"
  by (simp_all add: load_pil_def Let_def)

lemma load_pil_has_image: "image_q (load_pil convert mem c pil) \<noteq> None"
  by (simp add: load_pil_def Let_def)

lemma load_pil_image:
  "\<exists>img. image_q (load_pil convert mem c pil) = Some img
     \<and> width img = fst (size_wh (if mode pil \<noteq> ''P'' then convert pil else pil))
     \<and> height img = snd (size_wh (if mode pil \<noteq> ''P'' then convert pil else pil))
     \<and> length (pixel_bytes img) = width img * height img
     \<and> length (colortable img)
         = (if truthy (original_palette (load_pil convert mem c pil)) then 256 else 0)"
  by (auto simp: load_pil_def Let_def copy_pixels_frame set_palette_frame set_palette_length
        QImage_new_simps truthy_def split: option.splits)

text \<open>An indexed source with a palette arrives in the image byte for byte.\<close>

lemma load_pil_indexed_pixels:
  assumes "mode pil = ''P''" and "truthy (getpalette pil)"
    and "length (tobytes pil) = fst (size_wh pil) * snd (size_wh pil)"
  shows "\<exists>img. image_q (load_pil convert mem c pil) = Some img
     \<and> width img = fst (size_wh pil) \<and> height img = snd (size_wh pil)
     \<and> length (colortable img) = 256
     \<and> pixel_bytes img = tobytes pil"
proof -
  obtain l where l: "getpalette pil = Some l" "l \<noteq> []"
    using assms(2) by (auto simp: truthy_def split: option.splits)
  let ?w = "fst (size_wh pil)" and ?h = "snd (size_wh pil)"
  let ?img1 = "set_palette l (QImage_new mem ?w ?h)"
  have img: "image_q (load_pil convert mem c pil) = Some (copy_pixels (tobytes pil) ?w ?h ?img1)"
    using assms(1) l by (simp add: load_pil_def Let_def)
  have pre: "width ?img1 = ?w" "height ?img1 = ?h" "length (colortable ?img1) = 256"
    "length (pixel_bytes ?img1) = ?w * ?h"
    by (simp_all add: set_palette_frame set_palette_length QImage_new_simps)
  show ?thesis
    using img copy_pixels_result [OF pre assms(3)] pre(3) by simp
qed

lemma auto_char_height_pos: "1 \<le> auto_char_height h"
  by (simp add: auto_char_height_def Let_def)

section \<open>Saving\<close>

lemma fold_snoc_map: "fold (\<lambda>x ps. ps @ [g x]) xs ps = ps @ map g xs"
  by (induction xs arbitrary: ps) auto

lemma collect_row_eq:
  "collect_row img y ps = ps @ map (\<lambda>x. pixelIndex img x y) [0..<width img]"
  unfolding collect_row_def by (rule fold_snoc_map)

lemma collect_rows_eq:
  "fold (collect_row img) [0..<k] ps
     = ps @ concat (map (\<lambda>y. map (\<lambda>x. pixelIndex img x y) [0..<width img]) [0..<k])"
  by (induction k) (simp_all add: collect_row_eq)

lemma clip8_row:
  assumes "y < height img" and "length (pixel_bytes img) = width img * height img"
  shows "map clip8 (map (\<lambda>x. pixelIndex img x y) [0..<width img])
     = take (width img) (drop (y * width img) (pixel_bytes img))"
proof (rule nth_equalityI)
  have "Suc y \<le> height img" using assms(1) by simp
  then have "Suc y * width img \<le> height img * width img" by (rule mult_le_mono1)
  then have le: "y * width img + width img \<le> length (pixel_bytes img)"
    using assms(2) by (simp add: mult.commute)
  then show len: "length (map clip8 (map (\<lambda>x. pixelIndex img x y) [0..<width img]))
     = length (take (width img) (drop (y * width img) (pixel_bytes img)))"
    by simp
  fix i assume "i < length (map clip8 (map (\<lambda>x. pixelIndex img x y) [0..<width img]))"
  then have i: "i < width img" by simp
  then have "pixelIndex img i y = uint (pixel_bytes img ! (y * width img + i))"
    using assms(1) by (simp add: pixelIndex_def)
  then show "map clip8 (map (\<lambda>x. pixelIndex img x y) [0..<width img]) ! i
     = take (width img) (drop (y * width img) (pixel_bytes img)) ! i"
    using i le by (simp add: clip8_uint)
qed

lemma clip8_rows:
  assumes "length (pixel_bytes img) = width img * height img"
  shows "k \<le> height img \<Longrightarrow>
     map clip8 (concat (map (\<lambda>y. map (\<lambda>x. pixelIndex img x y) [0..<width img]) [0..<k]))
       = take (k * width img) (pixel_bytes img)"
proof (induction k)
  case 0
  show ?case by simp
next
  case (Suc k)
  have k: "k < height img" using Suc.prems by simp
  have "take (Suc k * width img) (pixel_bytes img)
      = take (k * width img + width img) (pixel_bytes img)"
    by (simp add: add.commute)
  also have "\<dots> = take (k * width img) (pixel_bytes img)
      @ take (width img) (drop (k * width img) (pixel_bytes img))"
    by (rule take_add)
  finally show ?case
    using Suc.IH k clip8_row [OF k assms] by simp
qed

lemma collect_pixels_result:
  assumes "length (pixel_bytes img) = width img * height img"
  shows "map clip8 (collect_pixels img) = pixel_bytes img"
proof -
  have "map clip8 (collect_pixels img) = take (height img * width img) (pixel_bytes img)"
    unfolding collect_pixels_def collect_rows_eq using clip8_rows [OF assms, of "height img"]
    by simp
  then show ?thesis using assms by (simp add: mult.commute)
qed

lemma save_image_success:
  assumes "image_q c = Some img" and "truthy (original_palette c)"
    and "length (pixel_bytes img) = width img * height img"
  shows "save_image True c
     = Inr (True, Some \<lparr>mode = ''P'', getpalette = original_palette c,
                         size_wh = (width img, height img), tobytes = pixel_bytes img\<rparr>)"
  using assms by (simp add: save_image_def collect_pixels_result)

lemma save_image_palette:
  assumes "save_image writable c = Inr (True, Some out)"
  shows "getpalette out = original_palette c"
  using assms by (auto simp: save_image_def Let_def split: option.splits if_splits)

lemma save_image_held:
  assumes "image_q c \<noteq> None" and "truthy (original_palette c)"
  shows "\<exists>out. save_image True c = Inr (True, Some out) \<and> getpalette out = original_palette c"
  using assms by (auto simp: save_image_def Let_def)

section \<open>Painting and strokes\<close>

lemma draw_pixel_inside:
  assumes "image_q c = Some img" and "zoom_level c \<noteq> 0" and "inside img (zoom_level c) p"
  shows "draw_pixel c p
     = Inr (c\<lparr>image_q := Some (setPixel img (nat (fst (cell_of (zoom_level c) p)))
                                  (nat (snd (cell_of (zoom_level c) p))) (current_color_index c))\<rparr>,
            [signal_at c p])"
  using assms by (simp add: draw_pixel_def inside_def signal_at_def Let_def)

text \<open>What a paint keeps: the image's shape, the zoom, the colour, the pressed state.\<close>

lemma move_inside:
  assumes "image_q c = Some img" and "zoom_level c \<noteq> 0" and "drawing c"
    and "inside img (zoom_level c) p"
  shows "\<exists>c' img'. mouseMoveEvent c p = Inr (c', [signal_at c p])
     \<and> image_q c' = Some img' \<and> width img' = width img \<and> height img' = height img
     \<and> zoom_level c' = zoom_level c \<and> current_color_index c' = current_color_index c
     \<and> drawing c'"
proof -
  let ?c = "c\<lparr>hover_y := snd p div zoom_level c\<rparr>"
  have "mouseMoveEvent c p = draw_pixel ?c p"
    using assms(1-3) by (simp add: mouseMoveEvent_def Let_def)
  moreover have "draw_pixel ?c p
     = Inr (?c\<lparr>image_q := Some (setPixel img (nat (fst (cell_of (zoom_level ?c) p)))
                                  (nat (snd (cell_of (zoom_level ?c) p))) (current_color_index ?c))\<rparr>,
            [signal_at ?c p])"
    using assms by (intro draw_pixel_inside) simp_all
  ultimately show ?thesis
    using assms(3) by (simp add: signal_at_def setPixel_frame)
qed

lemma press_inside:
  assumes "image_q c = Some img" and "zoom_level c \<noteq> 0"
    and "inside img (zoom_level c) p"
  shows "\<exists>c' img'. mousePressEvent c LeftButton p = Inr (c', [signal_at c p])
     \<and> image_q c' = Some img' \<and> width img' = width img \<and> height img' = height img
     \<and> zoom_level c' = zoom_level c \<and> current_color_index c' = current_color_index c
     \<and> drawing c'"
proof -
  let ?c = "c\<lparr>drawing := True\<rparr>"
  have "mousePressEvent c LeftButton p = draw_pixel ?c p"
    using assms(1) by (simp add: mousePressEvent_def)
  moreover have "draw_pixel ?c p
     = Inr (?c\<lparr>image_q := Some (setPixel img (nat (fst (cell_of (zoom_level ?c) p)))
                                  (nat (snd (cell_of (zoom_level ?c) p))) (current_color_index ?c))\<rparr>,
            [signal_at ?c p])"
    using assms by (intro draw_pixel_inside) simp_all
  ultimately show ?thesis
    by (simp add: signal_at_def setPixel_frame)
qed

lemma moves_inside:
  assumes "image_q c = Some img" and "zoom_level c \<noteq> 0" and "drawing c"
    and "\<forall>p \<in> set ps. inside img (zoom_level c) p"
  shows "\<exists>c'. run c (map Move ps) = Inr (c', map (signal_at c) ps)"
  using assms
proof (induction ps arbitrary: c img)
  case Nil
  show ?case by simp
next
  case (Cons p ps)
  obtain c1 img1 where c1: "mouseMoveEvent c p = Inr (c1, [signal_at c p])"
      "image_q c1 = Some img1" "width img1 = width img" "height img1 = height img"
      "zoom_level c1 = zoom_level c" "current_color_index c1 = current_color_index c"
      "drawing c1"
    using move_inside [OF Cons.prems(1-3), of p] Cons.prems(4) by auto
  have "\<forall>q \<in> set ps. inside img1 (zoom_level c1) q"
    using Cons.prems(4) c1(3-5) by (simp add: inside_def)
  then obtain c' where c': "run c1 (map Move ps) = Inr (c', map (signal_at c1) ps)"
    using Cons.IH [OF c1(2) _ c1(7)] c1(5) Cons.prems(2) by auto
  have "signal_at c1 = signal_at c"
    using c1(5,6) by (simp add: signal_at_def fun_eq_iff)
  then show ?case using c1(1) c' by simp
qed

lemma stroke_signals:
  assumes "image_q c = Some img" and "zoom_level c \<noteq> 0"
    and "\<forall>p \<in> set (p0 # ps). inside img (zoom_level c) p"
  shows "\<exists>c'. run c (Press LeftButton p0 # map Move ps) = Inr (c', map (signal_at c) (p0 # ps))"
proof -
  obtain c1 img1 where c1: "mousePressEvent c LeftButton p0 = Inr (c1, [signal_at c p0])"
      "image_q c1 = Some img1" "width img1 = width img" "height img1 = height img"
      "zoom_level c1 = zoom_level c" "current_color_index c1 = current_color_index c"
      "drawing c1"
    using press_inside [OF assms(1,2), of p0] assms(3) by auto
  have "\<forall>q \<in> set ps. inside img1 (zoom_level c1) q"
    using assms(3) c1(3-5) by (simp add: inside_def)
  then obtain c' where c': "run c1 (map Move ps) = Inr (c', map (signal_at c1) ps)"
    using moves_inside [OF c1(2) _ c1(7)] c1(5) assms(2) by auto
  have "signal_at c1 = signal_at c"
    using c1(5,6) by (simp add: signal_at_def fun_eq_iff)
  then show ?thesis using c1(1) c' by simp
qed

text \<open>No event assigns the palette, and none removes the image.\<close>

lemma draw_pixel_keeps:
  assumes "draw_pixel c p = Inr (c', s)"
  shows "original_palette c' = original_palette c \<and> (image_q c' = None) = (image_q c = None)"
  using assms by (auto simp: draw_pixel_def Let_def split: option.splits if_splits)

lemma step_keeps:
  assumes "step c ev = Inr (c', s)"
  shows "original_palette c' = original_palette c \<and> (image_q c' = None) = (image_q c = None)"
proof (cases ev)
  case (Press b p)
  then show ?thesis
    using assms draw_pixel_keeps [of "c\<lparr>drawing := True\<rparr>" p c' s]
    by (auto simp: mousePressEvent_def split: if_splits)
next
  case (Move p)
  then show ?thesis
    using assms draw_pixel_keeps [of "c\<lparr>hover_y := snd p div zoom_level c\<rparr>" p c' s]
    by (auto simp: mouseMoveEvent_def Let_def split: if_splits)
next
  case (Release b)
  then show ?thesis using assms by (auto simp: mouseReleaseEvent_def split: if_splits)
next
  case (Set_Color i)
  then show ?thesis using assms by (auto simp: set_color_def)
next
  case (Set_Zoom z)
  then show ?thesis using assms by (auto simp: set_zoom_def)
qed

lemma run_keeps:
  "run c evs = Inr (c', s) \<Longrightarrow>
     original_palette c' = original_palette c \<and> (image_q c' = None) = (image_q c = None)"
proof (induction evs arbitrary: c s)
  case Nil
  then show ?case by simp
next
  case (Cons ev evs)
  from Cons.prems obtain c1 s1 s2 where
    st: "step c ev = Inr (c1, s1)" and rn: "run c1 evs = Inr (c', s2)"
    by (auto split: sum.splits prod.splits)
  show ?case
    using step_keeps [OF st] Cons.IH [OF rn] by simp
qed

section \<open>The sample document\<close>

lemma demo_loaded:
  "\<exists>img. image_q (load_pil convert mem canvas_init demo_file) = Some img
     \<and> width img = 4 \<and> height img = 4 \<and> length (colortable img) = 256
     \<and> pixel_bytes img = tobytes demo_file"
  using load_pil_indexed_pixels [of demo_file convert mem canvas_init]
  by (simp add: demo_file_def truthy_def)

lemma demo_canvas_fields:
  "zoom_level (load_pil convert mem canvas_init demo_file) = 20"
  "current_color_index (load_pil convert mem canvas_init demo_file) = 1"
  "original_palette (load_pil convert mem canvas_init demo_file) = Some [255, 0, 255, 128, 0, 128]"
  by (simp_all add: load_pil_fields canvas_init_def demo_file_def)

lemma demo_saved:
  "save_image True (load_pil convert mem canvas_init demo_file) = Inr (True, Some demo_file)"
proof -
  let ?c = "load_pil convert mem canvas_init demo_file"
  obtain img where img: "image_q ?c = Some img" "width img = 4" "height img = 4"
      "pixel_bytes img = tobytes demo_file"
    using demo_loaded [of convert mem] by auto
  have "truthy (original_palette ?c)"
    by (simp add: demo_canvas_fields truthy_def)
  moreover have "length (pixel_bytes img) = width img * height img"
    using img by (simp add: demo_file_def)
  ultimately have "save_image True ?c
     = Inr (True, Some \<lparr>mode = ''P'', getpalette = original_palette ?c,
                         size_wh = (width img, height img), tobytes = pixel_bytes img\<rparr>)"
    using img(1) by (intro save_image_success)
  moreover have "original_palette ?c = getpalette demo_file"
    by (simp add: load_pil_fields demo_file_def)
  moreover have "\<lparr>mode = ''P'', getpalette = getpalette demo_file,
        size_wh = (4, 4), tobytes = tobytes demo_file\<rparr> = demo_file"
    by (simp add: demo_file_def)
  ultimately show ?thesis
    by (simp only: img(2,3,4))
qed


section \<open>Round trip\<close>

text \<open>
  A file that \<^verbatim>\<open>load_image\<close> decodes and \<^verbatim>\<open>save_image\<close> then encodes, with no pixel
  written in between, comes out with the palette table, the row-major pixel-index array and
  the dimensions it came in with, when it is an indexed file (mode \<^verbatim>\<open>P\<close>, one byte per
  pixel), on any canvas, or when the canvas holds no palette as the load begins: there a
  source of another mode is decoded but never encoded.
\<close>

lemma round_trip_indexed:
  assumes "mode f = ''P'' \<or> \<not> truthy (original_palette c)"
    and "length (tobytes f) = fst (size_wh f) * snd (size_wh f)"
    and "load_image convert mem c (Inr f) = Inr c'"
    and "save_image writable c' = Inr (True, Some out)"
  shows "getpalette out = getpalette f \<and> tobytes out = tobytes f \<and> size_wh out = size_wh f"
proof -
  have c': "c' = load_pil convert mem c f"
    using assms(3) by (simp add: load_image_def)
  have indexed: "mode f = ''P''"
  proof (rule ccontr)
    assume "mode f \<noteq> ''P''"
    then have "\<not> truthy (original_palette c')"
      using assms(1) by (simp add: c' load_pil_fields)
    then have "save_image writable c' = Inr (False, None)"
      by (simp add: save_image_def split: option.splits)
    then show False using assms(4) by simp
  qed
  have pal: "original_palette c' = getpalette f"
    using indexed by (simp add: c' load_pil_fields)
  have held: "truthy (getpalette f)"
    using assms(4) pal by (auto simp: save_image_def split: option.splits if_splits)
  obtain img where img: "image_q c' = Some img" "width img = fst (size_wh f)"
      "height img = snd (size_wh f)" "pixel_bytes img = tobytes f"
    using load_pil_indexed_pixels [OF indexed held assms(2)] c' by blast
  have w: "writable"
    using assms(4) img held pal by (auto simp: save_image_def Let_def split: if_splits)
  have "save_image True c' = Inr (True, Some \<lparr>mode = ''P'', getpalette = original_palette c',
          size_wh = (width img, height img), tobytes = pixel_bytes img\<rparr>)"
    using img held pal assms(2) by (intro save_image_success) simp_all
  then show ?thesis using assms(4) w img pal by auto
qed

lemma round_trip_demo:
  "mode demo_file = ''P''
   \<and> length (tobytes demo_file) = fst (size_wh demo_file) * snd (size_wh demo_file)
   \<and> load_image id blank_memory canvas_init (Inr demo_file)
       = Inr (load_pil id blank_memory canvas_init demo_file)
   \<and> save_image True (load_pil id blank_memory canvas_init demo_file) = Inr (True, Some demo_file)
   \<and> getpalette demo_file = Some [255, 0, 255, 128, 0, 128]
   \<and> tobytes demo_file = [0, 1, 1, 0, 1, 0, 0, 1, 1, 0, 0, 1, 0, 1, 1, 0]"
proof -
  have h0: "mode demo_file = ''P''" by (simp add: demo_file_def)
  then have h1: "mode demo_file = ''P'' \<or> \<not> truthy (original_palette canvas_init)" by simp
  have h2: "length (tobytes demo_file) = fst (size_wh demo_file) * snd (size_wh demo_file)"
    by (simp add: demo_file_def)
  have h3: "load_image id blank_memory canvas_init (Inr demo_file)
       = Inr (load_pil id blank_memory canvas_init demo_file)"
    by (simp add: load_image_def)
  have h4: "save_image True (load_pil id blank_memory canvas_init demo_file)
       = Inr (True, Some demo_file)"
    by (rule demo_saved)
  show ?thesis
    using round_trip_indexed [OF h1 h2 h3 h4] h0 h2 h3 h4 by (simp add: demo_file_def)
qed

text \<open>
  C1. Every file that is decoded and then encoded, with no pixel written in between, is to
  come out with the palette table and the pixel-index array of the input. The load of a
  source that is not of mode \<^verbatim>\<open>P\<close> keeps the palette of the document before it: after
  the sample indexed file, the RGB file is decoded and encoded, and the output carries the
  palette of the indexed file, which the RGB input does not have.
\<close>

theorem C1_stale_palette_breaks_round_trip:
  "\<exists>out. save_image True
            (load_pil convert mem (load_pil convert mem canvas_init demo_file) rgb_file)
          = Inr (True, Some out)
     \<and> getpalette out = Some [255, 0, 255, 128, 0, 128]
     \<and> getpalette rgb_file = None"
proof -
  let ?c = "load_pil convert mem (load_pil convert mem canvas_init demo_file) rgb_file"
  have p: "original_palette ?c = Some [255, 0, 255, 128, 0, 128]"
    by (simp add: load_pil_fields rgb_file_def demo_file_def)
  then have "truthy (original_palette ?c)"
    by (simp add: truthy_def)
  then obtain out where "save_image True ?c = Inr (True, Some out)"
      "getpalette out = original_palette ?c"
    using save_image_held [OF load_pil_has_image] by blast
  then show ?thesis using p by (simp add: rgb_file_def)
qed

section \<open>Glyph height\<close>

text \<open>
  C2. The character height set by a load depends on the bitmap height alone: 2048 gives 8,
  2259 gives 9, 3390 gives 15, 3584 gives 14, and any other height \<open>h\<close> gives
  \<open>h div 256\<close>, or 8 when that quotient is not positive (so 100 gives 8). The glyph count
  is the bitmap height divided by the character height, rounded down, after a load and on
  any canvas: 256, 251, 226 and 256 glyphs for the four listed heights.
\<close>

theorem C2_glyph_height_inference:
  "auto_char_height 2048 = 8 \<and> auto_char_height 2259 = 9
   \<and> auto_char_height 3390 = 15 \<and> auto_char_height 3584 = 14
   \<and> (h \<notin> {2048, 2259, 3390, 3584} \<longrightarrow>
        auto_char_height h = (if h div 256 \<le> 0 then 8 else h div 256))
   \<and> auto_char_height 100 = 8
   \<and> (image_q (load_pil convert mem c pil) = Some img \<longrightarrow>
        char_height (load_pil convert mem c pil) = auto_char_height (int (height img))
        \<and> num_chars (load_pil convert mem c pil)
            = Some (Inr (int (height img) div auto_char_height (int (height img)))))
   \<and> (2048 :: int) div auto_char_height 2048 = 256
   \<and> (2259 :: int) div auto_char_height 2259 = 251
   \<and> (3390 :: int) div auto_char_height 3390 = 226
   \<and> (3584 :: int) div auto_char_height 3584 = 256
   \<and> (image_q d = Some img' \<and> char_height d \<noteq> 0 \<longrightarrow>
        num_chars d = Some (Inr (int (height img') div char_height d)))"
proof -
  have table: "auto_char_height 2048 = 8" "auto_char_height 2259 = 9"
    "auto_char_height 3390 = 15" "auto_char_height 3584 = 14" "auto_char_height 100 = 8"
    by (simp_all add: auto_char_height_def)
  have other: "h \<notin> {2048, 2259, 3390, 3584} \<longrightarrow>
        auto_char_height h = (if h div 256 \<le> 0 then 8 else h div 256)"
    by (auto simp: auto_char_height_def Let_def)
  have loaded: "char_height (load_pil convert mem c pil) = auto_char_height (int (height img))
        \<and> num_chars (load_pil convert mem c pil)
            = Some (Inr (int (height img) div auto_char_height (int (height img))))"
    if img: "image_q (load_pil convert mem c pil) = Some img"
  proof -
    have h: "height img = snd (size_wh (if mode pil \<noteq> ''P'' then convert pil else pil))"
      using load_pil_image [of convert mem c pil] img by auto
    have ch: "char_height (load_pil convert mem c pil) = auto_char_height (int (height img))"
      by (simp only: load_pil_fields h)
    have "auto_char_height (int (height img)) \<noteq> 0"
      using auto_char_height_pos [of "int (height img)"] by simp
    then show ?thesis using ch img by (simp add: num_chars_def)
  qed
  have count: "image_q d = Some img' \<and> char_height d \<noteq> 0 \<longrightarrow>
        num_chars d = Some (Inr (int (height img') div char_height d))"
    by (simp add: num_chars_def)
  show ?thesis
    using table other loaded count by simp
qed

theorem C2_glyph_height_inference_witness:
  "(100 :: int) \<notin> {2048, 2259, 3390, 3584}
   \<and> auto_char_height 100 = 8
   \<and> image_q (load_pil id blank_memory canvas_init demo_file) \<noteq> None
   \<and> char_height (load_pil id blank_memory canvas_init demo_file) = 8
   \<and> num_chars (load_pil id blank_memory canvas_init demo_file) = Some (Inr 0)"
proof -
  obtain img where img: "image_q (load_pil id blank_memory canvas_init demo_file) = Some img"
      "height img = 4"
    using demo_loaded [of id blank_memory] by auto
  have "auto_char_height 4 = 8" by (simp add: auto_char_height_def)
  then show ?thesis
    using C2_glyph_height_inference [of 100 id blank_memory canvas_init demo_file img] img
    by simp
qed

section \<open>Strokes\<close>

text \<open>
  C3. The canvas keeps no record of the cell it painted last, so every event of a stroke
  reaches \<^verbatim>\<open>draw_pixel\<close>: a press on a cell followed by moves emits exactly one signal per
  event, each for the cell under that event's position and none for a cell in between. A
  press and a move inside the same cell therefore emit two signals for that cell; a further
  move to a new cell emits exactly one more, for the new cell.
\<close>

theorem C3_one_signal_per_event:
  assumes "image_q c = Some img" and "zoom_level c \<noteq> 0"
    and "\<forall>p \<in> set (p0 # ps). inside img (zoom_level c) p"
  shows "\<exists>c'. run c (Press LeftButton p0 # map Move ps) = Inr (c', map (signal_at c) (p0 # ps))"
  using assms by (rule stroke_signals)

theorem C3_one_signal_per_event_witness:
  "map_sum id snd (run (load_pil id blank_memory canvas_init demo_file)
                       [Press LeftButton (45, 45), Move (50, 50), Move (61, 47)])
     = Inr [(2, 2, 1), (2, 2, 1), (3, 2, 1)]"
proof -
  let ?c = "load_pil id blank_memory canvas_init demo_file"
  obtain img where img: "image_q ?c = Some img" "width img = 4" "height img = 4"
    using demo_loaded [of id blank_memory] by auto
  have "\<forall>p \<in> set [(45, 45), (50, 50), (61, 47)]. inside img (zoom_level ?c) p"
    using img by (simp add: inside_def cell_of_def demo_canvas_fields)
  then obtain c' where "run ?c (Press LeftButton (45, 45) # map Move [(50, 50), (61, 47)])
      = Inr (c', map (signal_at ?c) [(45, 45), (50, 50), (61, 47)])"
    using C3_one_signal_per_event [OF img(1), of "(45, 45)" "[(50, 50), (61, 47)]"]
    by (auto simp: demo_canvas_fields)
  then show ?thesis
    by (simp add: signal_at_def cell_of_def demo_canvas_fields)
qed

text \<open>
  A press at (45, 45) and a move to (50, 50) at zoom 20 are both in cell (2, 2): two signals
  are emitted, not one.
\<close>

theorem C3_counterexample:
  "map_sum id snd (run (load_pil id blank_memory canvas_init demo_file)
                       [Press LeftButton (45, 45), Move (50, 50)])
     = Inr [(2, 2, 1), (2, 2, 1)]"
proof -
  let ?c = "load_pil id blank_memory canvas_init demo_file"
  obtain img where img: "image_q ?c = Some img" "width img = 4" "height img = 4"
    using demo_loaded [of id blank_memory] by auto
  have "\<forall>p \<in> set [(45, 45), (50, 50)]. inside img (zoom_level ?c) p"
    using img by (simp add: inside_def cell_of_def demo_canvas_fields)
  then obtain c' where "run ?c (Press LeftButton (45, 45) # map Move [(50, 50)])
      = Inr (c', map (signal_at ?c) [(45, 45), (50, 50)])"
    using stroke_signals [OF img(1), of "(45, 45)" "[(50, 50)]"]
    by (auto simp: demo_canvas_fields)
  then show ?thesis
    by (simp add: signal_at_def cell_of_def demo_canvas_fields)
qed

section \<open>Bounds\<close>

text \<open>
  C4. A paint whose position maps to a cell with x outside [0, width) or y outside
  [0, height) returns normally, leaves the whole canvas as it was, every cell of the grid
  included, and emits no signal. The cell exists once the zoom is not zero, which the
  division of lines 204 and 205 needs.
\<close>

theorem C4_out_of_bounds_ignored:
  assumes "image_q c = Some img" and "zoom_level c \<noteq> 0"
    and "cell_of (zoom_level c) p = (x, y)"
    and "\<not> (0 \<le> x \<and> x < int (width img)) \<or> \<not> (0 \<le> y \<and> y < int (height img))"
  shows "draw_pixel c p = Inr (c, [])"
  using assms by (auto simp: draw_pixel_def Let_def)

theorem C4_out_of_bounds_ignored_witness:
  "image_q (load_pil id blank_memory canvas_init demo_file) \<noteq> None
   \<and> zoom_level (load_pil id blank_memory canvas_init demo_file) = 20
   \<and> cell_of 20 (85, 10) = (4, 0)
   \<and> draw_pixel (load_pil id blank_memory canvas_init demo_file) (85, 10)
       = Inr (load_pil id blank_memory canvas_init demo_file, [])"
proof -
  let ?c = "load_pil id blank_memory canvas_init demo_file"
  obtain img where img: "image_q ?c = Some img" "width img = 4" "height img = 4"
    using demo_loaded [of id blank_memory] by auto
  have z: "zoom_level ?c \<noteq> 0" by (simp add: demo_canvas_fields)
  have cell: "cell_of (zoom_level ?c) (85, 10) = (4, 0)"
    by (simp add: demo_canvas_fields cell_of_def)
  have out: "\<not> (0 \<le> (4 :: int) \<and> 4 < int (width img)) \<or> \<not> (0 \<le> (0 :: int) \<and> 0 < int (height img))"
    using img by simp
  show ?thesis
    using C4_out_of_bounds_ignored [OF img(1) z cell out] img(1) cell
    by (simp add: demo_canvas_fields)
qed

section \<open>Palette preservation\<close>

text \<open>
  C5. Nothing after a load alters the palette the canvas holds: after any sequence of
  presses, moves, releases, colour and zoom changes, the canvas holds the palette it held
  right after the load, a save that succeeds writes exactly that palette, and when a palette
  is held the save does succeed. For a source of mode \<^verbatim>\<open>P\<close> it is the palette of the file.
\<close>

theorem C5_palette_preserved:
  assumes "load_image convert mem c (Inr f) = Inr c1"
    and "run c1 evs = Inr (c2, emitted)"
  shows "original_palette c2 = original_palette c1
     \<and> (\<forall>writable out. save_image writable c2 = Inr (True, Some out) \<longrightarrow>
           getpalette out = original_palette c1)
     \<and> (truthy (original_palette c1) \<longrightarrow>
           (\<exists>out. save_image True c2 = Inr (True, Some out)
                  \<and> getpalette out = original_palette c1))
     \<and> (mode f = ''P'' \<longrightarrow> original_palette c1 = getpalette f)"
proof -
  have c1: "c1 = load_pil convert mem c f"
    using assms(1) by (simp add: load_image_def)
  have keep: "original_palette c2 = original_palette c1" "image_q c2 \<noteq> None"
    using run_keeps [OF assms(2)] load_pil_has_image [of convert mem c f] c1 by simp_all
  have a: "\<forall>writable out. save_image writable c2 = Inr (True, Some out) \<longrightarrow>
           getpalette out = original_palette c1"
    using save_image_palette keep(1) by metis
  have b: "truthy (original_palette c1) \<longrightarrow>
           (\<exists>out. save_image True c2 = Inr (True, Some out)
                  \<and> getpalette out = original_palette c1)"
    using save_image_held [OF keep(2)] keep(1) by simp
  have d: "mode f = ''P'' \<longrightarrow> original_palette c1 = getpalette f"
    by (simp add: c1 load_pil_fields)
  show ?thesis using keep(1) a b d by blast
qed

theorem C5_palette_preserved_witness:
  "\<exists>c2 out. run (load_pil id blank_memory canvas_init demo_file)
                [Press LeftButton (45, 45), Move (50, 50)] = Inr (c2, [(2, 2, 1), (2, 2, 1)])
     \<and> save_image True c2 = Inr (True, Some out)
     \<and> getpalette out = Some [255, 0, 255, 128, 0, 128]"
proof -
  let ?c = "load_pil id blank_memory canvas_init demo_file"
  obtain img where img: "image_q ?c = Some img" "width img = 4" "height img = 4"
    using demo_loaded [of id blank_memory] by auto
  have "\<forall>p \<in> set [(45, 45), (50, 50)]. inside img (zoom_level ?c) p"
    using img by (simp add: inside_def cell_of_def demo_canvas_fields)
  then obtain c2 where "run ?c (Press LeftButton (45, 45) # map Move [(50, 50)])
      = Inr (c2, map (signal_at ?c) [(45, 45), (50, 50)])"
    using stroke_signals [OF img(1), of "(45, 45)" "[(50, 50)]"]
    by (auto simp: demo_canvas_fields)
  then have r: "run ?c [Press LeftButton (45, 45), Move (50, 50)] = Inr (c2, [(2, 2, 1), (2, 2, 1)])"
    by (simp add: signal_at_def cell_of_def demo_canvas_fields)
  have l: "load_image id blank_memory canvas_init (Inr demo_file) = Inr ?c"
    by (simp add: load_image_def)
  have "truthy (original_palette ?c)"
    by (simp add: demo_canvas_fields truthy_def)
  then show ?thesis
    using C5_palette_preserved [OF l r] r by (auto simp: demo_canvas_fields)
qed

section \<open>Saving without a palette\<close>

text \<open>
  C6. \<^verbatim>\<open>save_image\<close> returns \<^verbatim>\<open>False\<close> exactly when the canvas has no image or holds
  no palette (\<^verbatim>\<open>None\<close> or empty). It then hands nothing to the encoder, and
  \<^verbatim>\<open>save_current\<close>, with a file selected, reports the save error.
\<close>

theorem C6_save_fails_iff_no_palette:
  "((\<exists>out. save_image writable c = Inr (False, out))
      = (image_q c = None \<or> \<not> truthy (original_palette c)))
   \<and> (image_q c = None \<or> \<not> truthy (original_palette c) \<longrightarrow>
        save_image writable c = Inr (False, None)
        \<and> (current_file e = Some path \<and> path \<noteq> [] \<and> canvas e = c \<longrightarrow>
             save_current msg writable e = (Critical_Save_Error ''Save failed'', None)))"
  by (auto simp: save_image_def save_current_def Let_def split: option.splits)

theorem C6_save_fails_iff_no_palette_witness:
  "image_q canvas_init = None
   \<and> current_file demo_editor = Some ''char0001.bmp''
   \<and> canvas demo_editor = canvas_init
   \<and> save_image True canvas_init = Inr (False, None)
   \<and> save_current str_of_error True demo_editor = (Critical_Save_Error ''Save failed'', None)"
proof -
  have h: "image_q canvas_init = None" by (simp add: canvas_init_def)
  have e: "current_file demo_editor = Some ''char0001.bmp''" "canvas demo_editor = canvas_init"
    by (simp_all add: demo_editor_def)
  show ?thesis
    using C6_save_fails_iff_no_palette
      [of True canvas_init demo_editor "''char0001.bmp''" str_of_error] h e
    by simp
qed

section \<open>Pointer to cell\<close>

text \<open>
  C7. For a pointer position with non-negative coordinates and a positive zoom, the cell is
  (px div zoom, py div zoom): the quotient truncated towards zero, not rounded, so that the
  pointer lies inside the cell's square, and it is the cell \<^verbatim>\<open>draw_pixel\<close> paints and
  signals. Pointer (103, 47) at zoom 20 is in cell (5, 2).
\<close>

theorem C7_pointer_to_cell:
  assumes "0 \<le> px" and "0 \<le> py" and "0 < zoom"
  shows "cell_of zoom (px, py) = (px div zoom, py div zoom)
     \<and> cell_of zoom (px, py) = (px sdiv zoom, py sdiv zoom)
     \<and> fst (cell_of zoom (px, py)) * zoom \<le> px \<and> px < fst (cell_of zoom (px, py)) * zoom + zoom
     \<and> snd (cell_of zoom (px, py)) * zoom \<le> py \<and> py < snd (cell_of zoom (px, py)) * zoom + zoom
     \<and> (image_q c = Some img \<and> zoom_level c = zoom \<and> inside img zoom (px, py) \<longrightarrow>
          draw_pixel c (px, py)
            = Inr (c\<lparr>image_q := Some (setPixel img (nat (px sdiv zoom)) (nat (py sdiv zoom))
                                         (current_color_index c))\<rparr>,
                   [(px sdiv zoom, py sdiv zoom, current_color_index c)]))
     \<and> cell_of 20 (103, 47) = (5, 2)"
proof -
  have sx: "px sdiv zoom = px div zoom" and sy: "py sdiv zoom = py div zoom"
    using assms by (simp_all add: signed_divide_int_def sgn_if)
  have bx: "px div zoom * zoom \<le> px \<and> px < px div zoom * zoom + zoom" for px :: int
    using assms(3)
    by (metis add.commute mult.commute pos_mod_bound pos_mod_sign mult_div_mod_eq add_le_cancel_left add_less_cancel_left add.right_neutral)
  have paint: "draw_pixel c (px, py)
            = Inr (c\<lparr>image_q := Some (setPixel img (nat (px sdiv zoom)) (nat (py sdiv zoom))
                                         (current_color_index c))\<rparr>,
                   [(px sdiv zoom, py sdiv zoom, current_color_index c)])"
    if "image_q c = Some img" "zoom_level c = zoom" "inside img zoom (px, py)"
    using draw_pixel_inside [of c img "(px, py)"] that assms(3) sx sy
    by (simp add: signal_at_def cell_of_def)
  show ?thesis
    using sx sy bx [of px] bx [of py] paint by (simp add: cell_of_def)
qed

theorem C7_pointer_to_cell_witness:
  "(0 :: int) \<le> 103 \<and> (0 :: int) \<le> 47 \<and> (0 :: int) < 20
   \<and> cell_of 20 (103, 47) = (5, 2) \<and> cell_of 20 (103, 47) = (103 sdiv 20, 47 sdiv 20)"
  using C7_pointer_to_cell [of 103 47 20] by simp

section \<open>Painting a cell\<close>




section \<open>Zoom\<close>

text \<open>
  C9. The zoom level is set through \<^verbatim>\<open>adjust_zoom\<close>, which clamps the requested level,
  the current one plus the step, to the range 5 to 50 before it hands it to \<^verbatim>\<open>set_zoom\<close>;
  \<^verbatim>\<open>set_zoom\<close> stores the level it is given. Neither changes the image or the palette.
\<close>

theorem C9_zoom_clamped_grid_untouched:
  "zoom_level (canvas (adjust_zoom e delta)) = max 5 (min 50 (zoom_level (canvas e) + delta))
   \<and> 5 \<le> zoom_level (canvas (adjust_zoom e delta))
   \<and> zoom_level (canvas (adjust_zoom e delta)) \<le> 50
   \<and> image_q (canvas (adjust_zoom e delta)) = image_q (canvas e)
   \<and> original_palette (canvas (adjust_zoom e delta)) = original_palette (canvas e)
   \<and> image_q (set_zoom c z) = image_q c
   \<and> original_palette (set_zoom c z) = original_palette c"
  by (simp add: adjust_zoom_def set_zoom_def Let_def)

section \<open>Non-indexed sources\<close>

text \<open>
  \<^verbatim>\<open>load_image\<close> assigns \<^verbatim>\<open>original_palette\<close> for a source of mode \<^verbatim>\<open>P\<close> and leaves it
  alone otherwise. On a canvas that holds no palette, as a new one does, a non-indexed
  source is decoded by conversion, the palette stays absent, and no later save succeeds.
\<close>

lemma non_indexed_without_palette_never_saves:
  assumes "mode f \<noteq> ''P''" and "\<not> truthy (original_palette c)"
    and "load_image convert mem c (Inr f) = Inr c1"
    and "run c1 evs = Inr (c2, emitted)"
  shows "original_palette c1 = original_palette c \<and> image_q c1 \<noteq> None
     \<and> save_image writable c2 = Inr (False, None)"
proof -
  have c1: "c1 = load_pil convert mem c f"
    using assms(3) by (simp add: load_image_def)
  have p: "original_palette c1 = original_palette c"
    using assms(1) by (simp add: c1 load_pil_fields)
  have "original_palette c2 = original_palette c"
    using run_keeps [OF assms(4)] p by simp
  then have "save_image writable c2 = Inr (False, None)"
    using assms(2) by (simp add: save_image_def split: option.splits)
  then show ?thesis using p c1 load_pil_has_image by simp
qed

text \<open>
  C10. A source that is not of mode \<^verbatim>\<open>P\<close> is decoded by conversion and no palette is
  taken from it, so no save of that document is meant to succeed. The load does not reset
  the palette, though: on a canvas that already holds the palette of an earlier indexed
  document, here the sample indexed file, the RGB file is loaded with the earlier file's
  palette still held, and \<^verbatim>\<open>save_image\<close> returns \<^verbatim>\<open>True\<close> for it.
\<close>

theorem C10_stale_palette_is_saved:
  "original_palette (load_pil convert mem (load_pil convert mem canvas_init demo_file) rgb_file)
     = getpalette demo_file
   \<and> map_sum id fst
       (save_image True (load_pil convert mem (load_pil convert mem canvas_init demo_file) rgb_file))
     = Inr True"
proof -
  let ?c = "load_pil convert mem (load_pil convert mem canvas_init demo_file) rgb_file"
  have p: "original_palette ?c = getpalette demo_file"
    by (simp add: load_pil_fields rgb_file_def demo_file_def)
  then have "truthy (original_palette ?c)"
    by (simp add: truthy_def demo_file_def)
  then obtain out where "save_image True ?c = Inr (True, Some out)"
    using save_image_held [OF load_pil_has_image] by blast
  then show ?thesis using p by simp
qed

end
